theory Spec2Isabelle
  imports Complex_Main
begin

section \<open>The menu-bar command: goal preferences and the confetti celebration\<close>

text \<open>
  The menu-bar command of the extension (the \<open>Command\<close> function that follows the type
  declarations of \<open>lib/types.ts\<close>) reads the goal from the preferences, asks two hooks
  for the user and for today's logtime, and runs \<open>checkAndCelebrate\<close> in an effect.

  Conventions of the embedding:
  \<^item> a finite JavaScript number is a \<open>rat\<close>; the result of the coercion \<open>Number(...)\<close>
    is a \<open>rat option\<close>, with \<open>None\<close> for \<open>NaN\<close>. Infinities and the rounding of
    doubles are not represented;
  \<^item> \<open>Number\<close> itself belongs to the language, not to the repository: it is a parameter
    \<open>N\<close> of the definitions that call it;
  \<^item> \<open>LocalStorage\<close> is a store whose \<open>getItem\<close> and \<open>setItem\<close> do not reject, and
    \<open>JSON.parse\<close> after \<open>JSON.stringify\<close> gives the record back, so an item is kept
    as the record itself and an absent item is \<open>None\<close>;
  \<^item> asynchronous code is taken apart where the claims depend on it: a run of
    \<open>checkAndCelebrate\<close> at its suspensions, a handler of the grid by the render whose
    state it reads.
\<close>

subsection \<open>Types\<close>

record Preferences =
  clientId :: string
  clientSecret :: string
  debugMode :: "bool option"
  userLogin :: "string option"
  goalHours :: "string option"
  goalMinutes :: "string option"

record Image =
  link :: string

text \<open>The fields \<open>id\<close> and \<open>image\<close> of the interface \<open>User\<close> carry a prime here,
  the plain names being constants of HOL.\<close>

record User =
  id' :: int
  login :: string
  location :: "string option"
  image' :: Image
  url :: string

type_synonym LocationStats = "(string \<times> string) list"

datatype LaunchType = UserInitiated | Background

record CelebrationState =
  lastTriggeredDate :: string
  lastLogtimeSeconds :: rat
  lastLogtimeDate :: string

text \<open>What \<open>checkAndCelebrate\<close> does to the outside world, in the order it does it.\<close>

datatype effect =
    GetItem string
  | OpenConfetti
  | SetItem string CelebrationState

text \<open>
  The values \<open>checkAndCelebrate\<close> closes over in one render of the command.
  \<open>goalReached\<close> is \<open>goalInfo.goalReached\<close>, computed by \<open>calculateGoalTimes\<close> of
  \<open>lib/utils\<close>; \<open>gHours\<close> and \<open>gMinutes\<close> are the numbers \<open>goalHours\<close> and
  \<open>goalMinutes\<close> of the command (the names without abbreviation are the preference
  fields above).
\<close>

record Render =
  launchType :: LaunchType
  isLoadingUser :: bool
  isLoadingStats :: bool
  stats :: "LocationStats option"
  todayLogtimeSeconds :: rat
  gHours :: rat
  gMinutes :: rat
  goalReached :: bool
  todayStr :: string

subsection \<open>The command's constants\<close>

definition isBackgroundMode :: "LaunchType \<Rightarrow> bool" where
  "isBackgroundMode lt \<longleftrightarrow> lt = Background"

text \<open>\<open>Number(s) || d\<close>: the default replaces \<open>NaN\<close> and zero, the two falsy numbers.\<close>

definition orDefault :: "rat option \<Rightarrow> rat \<Rightarrow> rat" where
  "orDefault n d = (case n of None \<Rightarrow> d | Some v \<Rightarrow> if v = 0 then d else v)"

definition goalHoursNumber :: "(string option \<Rightarrow> rat option) \<Rightarrow> Preferences \<Rightarrow> rat" where
  "goalHoursNumber N preferences = orDefault (N (goalHours preferences)) 6"

definition goalMinutesNumber :: "(string option \<Rightarrow> rat option) \<Rightarrow> Preferences \<Rightarrow> rat" where
  "goalMinutesNumber N preferences = orDefault (N (goalMinutes preferences)) 39"

definition goalSeconds :: "rat \<Rightarrow> rat \<Rightarrow> rat" where
  "goalSeconds h m = h * 3600 + m * 60"

text \<open>\<open>!!preferences.userLogin\<close> and \<open>!!user?.id\<close>: the empty string, zero and an absent
  value are falsy.\<close>

definition truthyLogin :: "string option \<Rightarrow> bool" where
  "truthyLogin l = (case l of None \<Rightarrow> False | Some s \<Rightarrow> s \<noteq> [])"

definition truthyUserId :: "User option \<Rightarrow> bool" where
  "truthyUserId u = (case u of None \<Rightarrow> False | Some v \<Rightarrow> id' v \<noteq> 0)"

text \<open>The \<open>execute\<close> options handed to \<open>useUser\<close> and \<open>useLocationStats\<close>.\<close>

definition executeUser :: "LaunchType \<Rightarrow> Preferences \<Rightarrow> bool" where
  "executeUser lt preferences \<longleftrightarrow> isBackgroundMode lt \<and> truthyLogin (userLogin preferences)"

definition executeStats :: "LaunchType \<Rightarrow> User option \<Rightarrow> bool" where
  "executeStats lt user \<longleftrightarrow> isBackgroundMode lt \<and> truthyUserId user"

definition isLoading :: "Render \<Rightarrow> bool" where
  "isLoading r \<longleftrightarrow> isLoadingUser r \<or> isLoadingStats r"

subsection \<open>checkAndCelebrate\<close>

definition confettiKey :: string where
  "confettiKey = ''confetti-state''"

definition emptyState :: CelebrationState where
  "emptyState = \<lparr>lastTriggeredDate = [], lastLogtimeSeconds = 0, lastLogtimeDate = []\<rparr>"

text \<open>\<open>storedState ? JSON.parse(storedState) : {...}\<close>\<close>

definition loadState :: "CelebrationState option \<Rightarrow> CelebrationState" where
  "loadState stored = (case stored of None \<Rightarrow> emptyState | Some s \<Rightarrow> s)"

definition skipped :: "Render \<Rightarrow> bool" where
  "skipped r \<longleftrightarrow> isBackgroundMode (launchType r) \<or> isLoading r \<or> stats r = None"

definition lastKnownLogtime :: "Render \<Rightarrow> CelebrationState \<Rightarrow> rat" where
  "lastKnownLogtime r state =
     (let isNewDay = (lastLogtimeDate state \<noteq> todayStr r)
      in if isNewDay then 0 else lastLogtimeSeconds state)"

definition shouldTrigger :: "Render \<Rightarrow> CelebrationState \<Rightarrow> bool" where
  "shouldTrigger r state \<longleftrightarrow>
     goalReached r \<and> lastTriggeredDate state \<noteq> todayStr r
     \<and> lastKnownLogtime r state < goalSeconds (gHours r) (gMinutes r)"

text \<open>One run of \<open>checkAndCelebrate\<close>: the effects it performs and the item
  \<open>confetti-state\<close> as it leaves it.\<close>

definition checkAndCelebrate ::
  "Render \<Rightarrow> CelebrationState option \<Rightarrow> effect list \<times> CelebrationState option" where
  "checkAndCelebrate r stored =
     (if skipped r then ([], stored)
      else
        let state = loadState stored in
        if shouldTrigger r state then
          let new = \<lparr>lastTriggeredDate = todayStr r,
                     lastLogtimeSeconds = todayLogtimeSeconds r,
                     lastLogtimeDate = todayStr r\<rparr>
          in ([GetItem confettiKey, OpenConfetti, SetItem confettiKey new], Some new)
        else if lastLogtimeSeconds state \<noteq> todayLogtimeSeconds r
                \<or> lastLogtimeDate state \<noteq> todayStr r then
          let new = state\<lparr>lastLogtimeSeconds := todayLogtimeSeconds r,
                          lastLogtimeDate := todayStr r\<rparr>
          in ([GetItem confettiKey, SetItem confettiKey new], Some new)
        else ([GetItem confettiKey], stored))"

definition fires :: "Render \<Rightarrow> CelebrationState option \<Rightarrow> bool" where
  "fires r stored \<longleftrightarrow> OpenConfetti \<in> set (fst (checkAndCelebrate r stored))"

text \<open>The effect runs once per change of its dependencies. A sequence of runs each of
  which has returned before the next starts threads the stored item through them and
  concatenates what they do.\<close>

fun cycles :: "Render list \<Rightarrow> CelebrationState option \<Rightarrow> effect list \<times> CelebrationState option" where
  "cycles [] stored = ([], stored)"
| "cycles (r # rs) stored =
     (let (es, stored') = checkAndCelebrate r stored;
          (es', stored'') = cycles rs stored'
      in (es @ es', stored''))"

definition confettiCount :: "effect list \<Rightarrow> nat" where
  "confettiCount es = length (filter (\<lambda>e. e = OpenConfetti) es)"

subsection \<open>Runs that overlap\<close>

text \<open>
  The effect calls the asynchronous \<open>checkAndCelebrate\<close> and does not wait for it; it
  has no cleanup and no lock. A run that passes the guard is suspended at
  \<open>await LocalStorage.getItem\<close> and, when it celebrates, again at
  \<open>await triggerConfetti()\<close>, after the confetti has been opened and before the state
  is written. While a run is suspended a change of a dependency can start another run,
  and the suspended runs go on in any order. \<open>checkAndCelebrate\<close> above is a run
  that nothing interleaves with, and \<open>cycles\<close> is a sequence of such runs; the
  definitions below take a run apart at its suspensions.

  A run reads the item when it goes on after \<open>getItem\<close> and writes it when it calls
  \<open>setItem\<close>. Where runs follow one another, and in the schedule of the two
  overlapping runs below, where no write comes before either read, it makes no
  difference at which moment between the call and the continuation the item is read.
\<close>

datatype phase = AwaitGetItem | AwaitConfetti | Returned

record Tracker =
  item :: "CelebrationState option"
  runs :: "(Render \<times> phase) list"
  performed :: "effect list"

datatype event = Start Render | Resume nat

text \<open>The effect starts a run: the guard, then the call of \<open>getItem\<close>.\<close>

definition start :: "Render \<Rightarrow> Tracker \<Rightarrow> Tracker" where
  "start r t =
     (if skipped r then t\<lparr>runs := runs t @ [(r, Returned)]\<rparr>
      else t\<lparr>runs := runs t @ [(r, AwaitGetItem)],
              performed := performed t @ [GetItem confettiKey]\<rparr>)"

text \<open>The run with index \<open>i\<close> goes on from its suspension to the next one, or to its
  end.\<close>

definition resume :: "nat \<Rightarrow> Tracker \<Rightarrow> Tracker" where
  "resume i t =
     (if i < length (runs t) then
        (case runs t ! i of
           (r, AwaitGetItem) \<Rightarrow>
             let state = loadState (item t) in
             if shouldTrigger r state then
               t\<lparr>runs := (runs t)[i := (r, AwaitConfetti)],
                 performed := performed t @ [OpenConfetti]\<rparr>
             else if lastLogtimeSeconds state \<noteq> todayLogtimeSeconds r
                     \<or> lastLogtimeDate state \<noteq> todayStr r then
               let new = state\<lparr>lastLogtimeSeconds := todayLogtimeSeconds r,
                               lastLogtimeDate := todayStr r\<rparr>
               in t\<lparr>item := Some new, runs := (runs t)[i := (r, Returned)],
                    performed := performed t @ [SetItem confettiKey new]\<rparr>
             else t\<lparr>runs := (runs t)[i := (r, Returned)]\<rparr>
         | (r, AwaitConfetti) \<Rightarrow>
             let new = \<lparr>lastTriggeredDate = todayStr r,
                        lastLogtimeSeconds = todayLogtimeSeconds r,
                        lastLogtimeDate = todayStr r\<rparr>
             in t\<lparr>item := Some new, runs := (runs t)[i := (r, Returned)],
                  performed := performed t @ [SetItem confettiKey new]\<rparr>
         | (r, Returned) \<Rightarrow> t)
      else t)"

fun step :: "event \<Rightarrow> Tracker \<Rightarrow> Tracker" where
  "step (Start r) t = start r t"
| "step (Resume i) t = resume i t"

fun exec :: "event list \<Rightarrow> Tracker \<Rightarrow> Tracker" where
  "exec [] t = t"
| "exec (e # es) t = exec es (step e t)"

definition idle :: "CelebrationState option \<Rightarrow> Tracker" where
  "idle stored = \<lparr>item = stored, runs = [], performed = []\<rparr>"

text \<open>The schedule in which each run has returned before the next one starts; \<open>k\<close> is
  the index the first of these runs gets. A run has at most two suspensions.\<close>

fun serial :: "nat \<Rightarrow> Render list \<Rightarrow> event list" where
  "serial k [] = []"
| "serial k (r # rs) = Start r # Resume k # Resume k # serial (Suc k) rs"

section \<open>The pinned-users grid\<close>

text \<open>
  The grid command keeps the pinned logins and a cache of user snapshots twice: in React
  state (\<open>pinnedUserLogins\<close>, \<open>pinnedUsersCache\<close>) and in \<open>LocalStorage\<close> under the keys
  \<open>pinned-users\<close> and \<open>pinned-users-cache\<close>. The cache is a JavaScript object used as a
  dictionary from login to \<open>User\<close>; a lookup here is a lookup of an own property, and a
  stored \<open>User\<close> is truthy.
\<close>

record PinState =
  pinnedUserLogins :: "string list"
  pinnedUsersCache :: "string \<rightharpoonup> User"
  storedPinnedUsers :: "string list option"
  storedPinnedUsersCache :: "(string \<rightharpoonup> User) option"

text \<open>
  The three savers write the item and then set the React state. Their \<open>catch\<close> branch,
  which logs in debug mode and leaves the state alone, is taken when \<open>setItem\<close> rejects;
  the store of this model does not.
\<close>

definition savePinnedUsers :: "string list \<Rightarrow> PinState \<Rightarrow> PinState" where
  "savePinnedUsers logins s = s\<lparr>storedPinnedUsers := Some logins, pinnedUserLogins := logins\<rparr>"

definition cacheUser :: "User \<Rightarrow> PinState \<Rightarrow> PinState" where
  "cacheUser user s =
     (let newCache = (pinnedUsersCache s)(login user \<mapsto> user)
      in s\<lparr>storedPinnedUsersCache := Some newCache, pinnedUsersCache := newCache\<rparr>)"

definition removeCachedUser :: "string \<Rightarrow> PinState \<Rightarrow> PinState" where
  "removeCachedUser l s =
     (let newCache = (pinnedUsersCache s)(l := None)
      in s\<lparr>storedPinnedUsersCache := Some newCache, pinnedUsersCache := newCache\<rparr>)"

definition isPinned :: "string \<Rightarrow> PinState \<Rightarrow> bool" where
  "isPinned l s \<longleftrightarrow> l \<in> set (pinnedUserLogins s)"

definition togglePin :: "User \<Rightarrow> PinState \<Rightarrow> PinState" where
  "togglePin user s =
     (let isCurrentlyPinned = (login user \<in> set (pinnedUserLogins s)) in
      if isCurrentlyPinned then
        let newPinned = filter (\<lambda>l. l \<noteq> login user) (pinnedUserLogins s)
        in removeCachedUser (login user) (savePinnedUsers newPinned s)
      else
        let newPinned = pinnedUserLogins s @ [login user]
        in cacheUser user (savePinnedUsers newPinned s))"

text \<open>\<open>pinnedUserLogins.filter((login) => !pinnedUsersCache[login])\<close>\<close>

definition uncachedLogins :: "PinState \<Rightarrow> string list" where
  "uncachedLogins s = filter (\<lambda>l. pinnedUsersCache s l = None) (pinnedUserLogins s)"

text \<open>\<open>pinnedUserLogins.map((login) => pinnedUsersCache[login]).filter(Boolean)\<close>\<close>

definition pinnedUsers :: "PinState \<Rightarrow> User list" where
  "pinnedUsers s =
     map the (filter (\<lambda>u. u \<noteq> None) (map (pinnedUsersCache s) (pinnedUserLogins s)))"

text \<open>The logins handed to \<open>usePinnedUsers\<close>, when its \<open>execute\<close> option is true.\<close>

definition pinnedFetch :: "string \<Rightarrow> PinState \<Rightarrow> string list option" where
  "pinnedFetch searchText s =
     (if length searchText = 0 \<and> length (uncachedLogins s) > 0
      then Some (uncachedLogins s) else None)"

text \<open>The users that the effect on \<open>fetchedPinnedUsers\<close> passes to \<open>cacheUser\<close>.\<close>

definition fedToCacheUser :: "User list option \<Rightarrow> PinState \<Rightarrow> User list" where
  "fedToCacheUser fetchedPinnedUsers s =
     (case fetchedPinnedUsers of
        None \<Rightarrow> []
      | Some us \<Rightarrow>
          if length us > 0
          then filter (\<lambda>user. pinnedUsersCache s (login user) = None) us
          else [])"

subsection \<open>Handlers and the render they belong to\<close>

text \<open>
  Each render of the grid creates its own \<open>togglePin\<close>, \<open>cacheUser\<close> and
  \<open>removeCachedUser\<close>. They read \<open>pinnedUserLogins\<close> and \<open>pinnedUsersCache\<close> of that
  render, whatever the state has become by the time they are called, and set the state
  and the items to values computed from them. In the definitions above the state read
  and the state changed are one: a handler called in the render that is current. Below
  they are apart: \<open>c\<close> is the state of the render the handler belongs to and \<open>cur\<close> the
  state at the call. The grid's own pin action calls the handler of the current render;
  the detail view calls the \<open>togglePin\<close> it was given as \<open>onTogglePin\<close>.
\<close>

definition cacheUserOf :: "PinState \<Rightarrow> User \<Rightarrow> PinState \<Rightarrow> PinState" where
  "cacheUserOf c user cur =
     (let newCache = (pinnedUsersCache c)(login user \<mapsto> user)
      in cur\<lparr>storedPinnedUsersCache := Some newCache, pinnedUsersCache := newCache\<rparr>)"

definition removeCachedUserOf :: "PinState \<Rightarrow> string \<Rightarrow> PinState \<Rightarrow> PinState" where
  "removeCachedUserOf c l cur =
     (let newCache = (pinnedUsersCache c)(l := None)
      in cur\<lparr>storedPinnedUsersCache := Some newCache, pinnedUsersCache := newCache\<rparr>)"

definition togglePinOf :: "PinState \<Rightarrow> User \<Rightarrow> PinState \<Rightarrow> PinState" where
  "togglePinOf c user cur =
     (let isCurrentlyPinned = (login user \<in> set (pinnedUserLogins c)) in
      if isCurrentlyPinned then
        let newPinned = filter (\<lambda>l. l \<noteq> login user) (pinnedUserLogins c)
        in removeCachedUserOf c (login user) (savePinnedUsers newPinned cur)
      else
        let newPinned = pinnedUserLogins c @ [login user]
        in cacheUserOf c user (savePinnedUsers newPinned cur))"

section \<open>Sample values\<close>

text \<open>The render and the empty state of the specification's example, a render of the
  following day, and two users.\<close>

definition day15 :: Render where
  "day15 = \<lparr>launchType = UserInitiated, isLoadingUser = False, isLoadingStats = False,
            stats = Some [(''2024-01-15'', ''06:56:40'')], todayLogtimeSeconds = 25000,
            gHours = 6, gMinutes = 39, goalReached = True, todayStr = ''2024-01-15''\<rparr>"

definition day16 :: Render where
  "day16 = day15\<lparr>stats := Some [(''2024-01-16'', ''06:40:00'')],
                 todayLogtimeSeconds := 24000, todayStr := ''2024-01-16''\<rparr>"

text \<open>The render after a refresh of the stats on the same day, one minute on.\<close>

definition day15later :: Render where
  "day15later = day15\<lparr>stats := Some [(''2024-01-15'', ''06:57:40'')],
                      todayLogtimeSeconds := 25060\<rparr>"

definition userA :: User where
  "userA = \<lparr>id' = 1, login = ''a'', location = None,
            image' = \<lparr>link = ''a.jpg''\<rparr>, url = ''users/a''\<rparr>"

definition userB :: User where
  "userB = \<lparr>id' = 2, login = ''b'', location = Some ''e1r1p1'',
            image' = \<lparr>link = ''b.jpg''\<rparr>, url = ''users/b''\<rparr>"

definition pins :: "string list \<Rightarrow> (string \<rightharpoonup> User) \<Rightarrow> PinState" where
  "pins ls c = \<lparr>pinnedUserLogins = ls, pinnedUsersCache = c,
               storedPinnedUsers = Some ls, storedPinnedUsersCache = Some c\<rparr>"

section \<open>Properties of the celebration\<close>

lemmas render_simps =
  skipped_def isBackgroundMode_def isLoading_def loadState_def emptyState_def
  shouldTrigger_def lastKnownLogtime_def goalSeconds_def confettiKey_def
  day15_def day16_def

lemma fires_iff:
  "fires r stored \<longleftrightarrow> \<not> skipped r \<and> shouldTrigger r (loadState stored)"
  by (simp add: fires_def checkAndCelebrate_def Let_def)

lemma fires_persists:
  "fires r stored \<Longrightarrow>
     snd (checkAndCelebrate r stored) =
       Some \<lparr>lastTriggeredDate = todayStr r, lastLogtimeSeconds = todayLogtimeSeconds r,
             lastLogtimeDate = todayStr r\<rparr>"
  by (simp add: fires_iff checkAndCelebrate_def Let_def)

lemma lastTriggeredDate_kept:
  "\<not> fires r stored \<Longrightarrow>
     lastTriggeredDate (loadState (snd (checkAndCelebrate r stored)))
       = lastTriggeredDate (loadState stored)"
  by (cases "skipped r") (simp_all add: fires_iff checkAndCelebrate_def Let_def loadState_def)

lemma triggered_today_blocks:
  "lastTriggeredDate (loadState stored) = todayStr r \<Longrightarrow> \<not> fires r stored"
  by (simp add: fires_iff shouldTrigger_def)

lemma confettiCount_step:
  "confettiCount (fst (checkAndCelebrate r stored)) = (if fires r stored then 1 else 0)"
  by (simp add: fires_iff checkAndCelebrate_def Let_def confettiCount_def)

lemma cycles_Cons_count:
  "confettiCount (fst (cycles (r # rs) stored)) =
     confettiCount (fst (checkAndCelebrate r stored))
       + confettiCount (fst (cycles rs (snd (checkAndCelebrate r stored))))"
  by (simp add: confettiCount_def split: prod.splits)

lemma no_confetti_once_triggered:
  "lastTriggeredDate (loadState stored) = D \<Longrightarrow> \<forall>r\<in>set rs. todayStr r = D \<Longrightarrow>
     confettiCount (fst (cycles rs stored)) = 0"
proof (induction rs arbitrary: stored)
  case Nil
  then show ?case by (simp add: confettiCount_def)
next
  case (Cons r rs)
  from Cons.prems have today: "todayStr r = D" and rest: "\<forall>r\<in>set rs. todayStr r = D"
    by simp_all
  from today Cons.prems(1) have quiet: "\<not> fires r stored"
    by (simp add: triggered_today_blocks)
  then have "lastTriggeredDate (loadState (snd (checkAndCelebrate r stored))) = D"
    using Cons.prems(1) by (simp add: lastTriggeredDate_kept)
  then have "confettiCount (fst (cycles rs (snd (checkAndCelebrate r stored)))) = 0"
    using rest by (rule Cons.IH)
  with quiet show ?case
    by (simp only: cycles_Cons_count confettiCount_step) simp
qed

lemma at_most_one_confetti:
  "\<forall>r\<in>set rs. todayStr r = D \<Longrightarrow> confettiCount (fst (cycles rs stored)) \<le> 1"
proof (induction rs arbitrary: stored)
  case Nil
  then show ?case by (simp add: confettiCount_def)
next
  case (Cons r rs)
  from Cons.prems have today: "todayStr r = D" and rest: "\<forall>r\<in>set rs. todayStr r = D"
    by simp_all
  show ?case
  proof (cases "fires r stored")
    case True
    with today have "lastTriggeredDate (loadState (snd (checkAndCelebrate r stored))) = D"
      by (simp add: fires_persists loadState_def)
    then have "confettiCount (fst (cycles rs (snd (checkAndCelebrate r stored)))) = 0"
      using rest by (rule no_confetti_once_triggered)
    with True show ?thesis
      by (simp only: cycles_Cons_count confettiCount_step) simp
  next
    case False
    have "confettiCount (fst (cycles rs (snd (checkAndCelebrate r stored)))) \<le> 1"
      using rest by (rule Cons.IH)
    with False show ?thesis
      by (simp only: cycles_Cons_count confettiCount_step) simp
  qed
qed

lemma cycles_Cons_snd:
  "snd (cycles (r # rs) stored) = snd (cycles rs (snd (checkAndCelebrate r stored)))"
  by (simp split: prod.splits)

lemma triggered_kept_by_cycles:
  "lastTriggeredDate (loadState stored) = D \<Longrightarrow> \<forall>r\<in>set rs. todayStr r = D \<Longrightarrow>
     lastTriggeredDate (loadState (snd (cycles rs stored))) = D"
proof (induction rs arbitrary: stored)
  case Nil
  then show ?case by simp
next
  case (Cons r rs)
  from Cons.prems have "\<not> fires r stored" by (simp add: triggered_today_blocks)
  then have "lastTriggeredDate (loadState (snd (checkAndCelebrate r stored))) = D"
    using Cons.prems(1) by (simp add: lastTriggeredDate_kept)
  moreover from Cons.prems have "\<forall>r\<in>set rs. todayStr r = D" by simp
  ultimately have
    "lastTriggeredDate (loadState (snd (cycles rs (snd (checkAndCelebrate r stored))))) = D"
    by (rule Cons.IH)
  then show ?case by (simp only: cycles_Cons_snd)
qed

text \<open>A run that no other run interleaves with does what \<open>checkAndCelebrate\<close> says, and
  the serial schedule does what \<open>cycles\<close> says.\<close>

lemma run_alone:
  "step (Resume (length (runs t))) (step (Resume (length (runs t))) (step (Start r) t)) =
     t\<lparr>item := snd (checkAndCelebrate r (item t)),
       runs := runs t @ [(r, Returned)],
       performed := performed t @ fst (checkAndCelebrate r (item t))\<rparr>"
  by (simp add: start_def resume_def checkAndCelebrate_def Let_def nth_append)

lemma exec_serial:
  "exec (serial (length (runs t)) rs) t =
     t\<lparr>item := snd (cycles rs (item t)),
       runs := runs t @ map (\<lambda>r. (r, Returned)) rs,
       performed := performed t @ fst (cycles rs (item t))\<rparr>"
proof (induction rs arbitrary: t)
  case Nil
  show ?case by simp
next
  case (Cons r rs)
  let ?t' = "t\<lparr>item := snd (checkAndCelebrate r (item t)),
       runs := runs t @ [(r, Returned)],
       performed := performed t @ fst (checkAndCelebrate r (item t))\<rparr>"
  have "exec (serial (length (runs t)) (r # rs)) t = exec (serial (length (runs ?t')) rs) ?t'"
    using run_alone [of t r] by simp
  also have "\<dots> = ?t'\<lparr>item := snd (cycles rs (item ?t')),
       runs := runs ?t' @ map (\<lambda>r. (r, Returned)) rs,
       performed := performed ?t' @ fst (cycles rs (item ?t'))\<rparr>"
    by (rule Cons.IH)
  finally show ?case by (simp split: prod.splits)
qed

lemma serial_from_idle:
  "item (exec (serial 0 rs) (idle stored)) = snd (cycles rs stored)"
  "performed (exec (serial 0 rs) (idle stored)) = fst (cycles rs stored)"
  using exec_serial [of "idle stored" rs] by (simp_all add: idle_def)

lemma background_cycles:
  "\<forall>r\<in>set rs. isBackgroundMode (launchType r) \<Longrightarrow> cycles rs stored = ([], stored)"
  by (induction rs arbitrary: stored) (simp_all add: checkAndCelebrate_def skipped_def)

text \<open>
  Claim C1. In a cycle that is not skipped (the early return of \<open>checkAndCelebrate\<close> is
  not taken: data loaded, stats present, and the command not launched in the background)
  the confetti is opened if and only if the goal is reached, the stored
  \<open>lastTriggeredDate\<close> is not today's date \<open>D\<close>, and the last known logtime (zero when the
  stored \<open>lastLogtimeDate\<close> is not \<open>D\<close>, the stored \<open>lastLogtimeSeconds\<close> otherwise) is
  below \<open>goalHours * 3600 + goalMinutes * 60\<close>. In particular, when the stored dates are
  those of an earlier day, a reached goal fires, whether or not the earlier day fired;
  the goal is positive there, as every goal of the configuration's range is.
\<close>

theorem C1_fire_condition:
  assumes "\<not> skipped r"
  shows "(fires r stored \<longleftrightarrow>
            goalReached r
            \<and> lastTriggeredDate (loadState stored) \<noteq> todayStr r
            \<and> (if lastLogtimeDate (loadState stored) \<noteq> todayStr r then 0
               else lastLogtimeSeconds (loadState stored))
                < gHours r * 3600 + gMinutes r * 60)
       \<and> (goalReached r \<and> 0 < goalSeconds (gHours r) (gMinutes r)
          \<and> lastTriggeredDate (loadState stored) \<noteq> todayStr r
          \<and> lastLogtimeDate (loadState stored) \<noteq> todayStr r
          \<longrightarrow> fires r stored)"
  using assms by (simp add: fires_iff shouldTrigger_def lastKnownLogtime_def goalSeconds_def)

theorem C1_fire_condition_witness:
  "\<not> skipped day16
   \<and> fires day15 None
   \<and> lastTriggeredDate (loadState (snd (checkAndCelebrate day15 None))) = ''2024-01-15''
   \<and> fires day16 (snd (checkAndCelebrate day15 None))"
  using C1_fire_condition [of day16 "snd (checkAndCelebrate day15 None)"]
    C1_fire_condition [of day15 None]
  by (simp add: checkAndCelebrate_def Let_def render_simps)

text \<open>
  Claim C2, as it is stated, for every sequence of cycles on one date: the confetti would
  be opened at most once. Two runs that overlap open it twice: the first run is started
  and suspended at \<open>getItem\<close>, a refresh of the stats starts the second, each goes on,
  reads the item, still absent, and opens the confetti, and only then each writes.
\<close>

theorem C2_overlapping_runs_counterexample:
  "todayStr day15later = todayStr day15
   \<and> confettiCount (performed
        (exec [Start day15, Start day15later, Resume 0, Resume 1, Resume 0, Resume 1]
           (idle None))) = 2"
  by (simp add: confettiCount_def start_def resume_def idle_def day15later_def Let_def
      render_simps)

text \<open>
  Claim C2, amended. Over any sequence of cycles evaluated on one date \<open>D\<close>, each of which
  has returned before the next one starts, from any persisted state, the confetti is
  opened at most once. When the first of such cycles fires, it persists
  \<open>lastTriggeredDate = D\<close> and the confetti is opened exactly once however many cycles
  on \<open>D\<close> follow it and whatever their inputs; a second cycle with the inputs of the
  firing one does not fire.
\<close>

theorem C2_at_most_once_serial:
  assumes "\<forall>r\<in>set rs. todayStr r = D"
  shows "confettiCount (performed (exec (serial 0 rs) (idle stored))) \<le> 1
       \<and> (fires r0 stored \<and> todayStr r0 = D \<longrightarrow>
            confettiCount (performed (exec (serial 0 (r0 # rs)) (idle stored))) = 1
            \<and> confettiCount (performed (exec (serial 0 [r0, r0]) (idle stored))) = 1
            \<and> lastTriggeredDate (loadState (item (exec (serial 0 (r0 # rs)) (idle stored))))
                = D)"
proof (intro conjI impI)
  show "confettiCount (performed (exec (serial 0 rs) (idle stored))) \<le> 1"
    using assms by (simp only: serial_from_idle at_most_one_confetti)
next
  assume f: "fires r0 stored \<and> todayStr r0 = D"
  then have d: "lastTriggeredDate (loadState (snd (checkAndCelebrate r0 stored))) = D"
    by (simp add: fires_persists loadState_def)
  have "confettiCount (fst (cycles rs (snd (checkAndCelebrate r0 stored)))) = 0"
    using d assms by (rule no_confetti_once_triggered)
  with f show "confettiCount (performed (exec (serial 0 (r0 # rs)) (idle stored))) = 1"
    by (simp only: serial_from_idle cycles_Cons_count confettiCount_step) simp
  from f have "\<forall>r\<in>set [r0]. todayStr r = D" by simp
  with d have "confettiCount (fst (cycles [r0] (snd (checkAndCelebrate r0 stored)))) = 0"
    by (rule no_confetti_once_triggered)
  with f show "confettiCount (performed (exec (serial 0 [r0, r0]) (idle stored))) = 1"
    by (simp only: serial_from_idle cycles_Cons_count confettiCount_step) simp
  from d assms
  have "lastTriggeredDate (loadState (snd (cycles rs (snd (checkAndCelebrate r0 stored))))) = D"
    by (rule triggered_kept_by_cycles)
  then show "lastTriggeredDate (loadState (item (exec (serial 0 (r0 # rs)) (idle stored)))) = D"
    by (simp only: serial_from_idle cycles_Cons_snd)
qed

theorem C2_at_most_once_serial_witness:
  "todayStr day15later = ''2024-01-15''
   \<and> fires day15 None
   \<and> confettiCount (performed (exec (serial 0 [day15later]) (idle None))) = 1
   \<and> confettiCount (performed (exec (serial 0 [day15, day15later]) (idle None))) = 1
   \<and> confettiCount (performed (exec (serial 0 [day15, day15]) (idle None))) = 1
   \<and> lastTriggeredDate (loadState (item (exec (serial 0 [day15, day15later]) (idle None))))
       = ''2024-01-15''"
proof -
  have dates: "\<forall>r\<in>set [day15later]. todayStr r = ''2024-01-15''"
    by (simp add: day15later_def day15_def)
  have first: "fires day15 None \<and> todayStr day15 = ''2024-01-15''"
    by (simp add: fires_iff render_simps)
  have alone: "confettiCount (performed (exec (serial 0 [day15later]) (idle None))) = 1"
    by (simp add: confettiCount_def start_def resume_def idle_def day15later_def Let_def
        render_simps)
  from C2_at_most_once_serial [OF dates, of None day15] first alone dates
  show ?thesis by simp
qed

text \<open>
  Claim C3. On a date \<open>D\<close> for which a logtime is already stored: when the stored
  \<open>lastLogtimeSeconds\<close> has reached the goal now configured (a goal lowered since), the
  cycle does not fire, even with the goal reached and no celebration stored for \<open>D\<close>, and
  with the logtime unchanged it writes nothing; when the stored value is below the goal,
  the guard holds and the cycle fires exactly when the goal is reached and \<open>D\<close> has not
  been celebrated.
\<close>

theorem C3_lowered_goal_guard:
  assumes "\<not> skipped r" and "lastLogtimeDate (loadState stored) = todayStr r"
  shows "(goalSeconds (gHours r) (gMinutes r) \<le> lastLogtimeSeconds (loadState stored)
            \<longrightarrow> \<not> fires r stored
               \<and> (todayLogtimeSeconds r = lastLogtimeSeconds (loadState stored)
                    \<longrightarrow> checkAndCelebrate r stored = ([GetItem confettiKey], stored)))
       \<and> (lastLogtimeSeconds (loadState stored) < goalSeconds (gHours r) (gMinutes r)
            \<longrightarrow> lastKnownLogtime r (loadState stored) < goalSeconds (gHours r) (gMinutes r)
               \<and> (fires r stored \<longleftrightarrow>
                    goalReached r \<and> lastTriggeredDate (loadState stored) \<noteq> todayStr r))"
  using assms
  by (simp add: fires_iff checkAndCelebrate_def shouldTrigger_def lastKnownLogtime_def Let_def)

theorem C3_lowered_goal_guard_witness:
  "\<not> skipped (day15\<lparr>todayLogtimeSeconds := 20000, gHours := 5, gMinutes := 30\<rparr>)
   \<and> snd (checkAndCelebrate (day15\<lparr>todayLogtimeSeconds := 20000, goalReached := False\<rparr>) None)
       = Some \<lparr>lastTriggeredDate = [], lastLogtimeSeconds = 20000,
               lastLogtimeDate = ''2024-01-15''\<rparr>
   \<and> \<not> fires (day15\<lparr>todayLogtimeSeconds := 20000, gHours := 5, gMinutes := 30\<rparr>)
         (snd (checkAndCelebrate
                 (day15\<lparr>todayLogtimeSeconds := 20000, goalReached := False\<rparr>) None))
   \<and> fst (checkAndCelebrate (day15\<lparr>todayLogtimeSeconds := 20000, gHours := 5, gMinutes := 30\<rparr>)
         (snd (checkAndCelebrate
                 (day15\<lparr>todayLogtimeSeconds := 20000, goalReached := False\<rparr>) None)))
       = [GetItem confettiKey]
   \<and> fires day15
         (snd (checkAndCelebrate
                 (day15\<lparr>todayLogtimeSeconds := 20000, goalReached := False\<rparr>) None))"
proof -
  have before:
    "snd (checkAndCelebrate (day15\<lparr>todayLogtimeSeconds := 20000, goalReached := False\<rparr>) None)
       = Some \<lparr>lastTriggeredDate = [], lastLogtimeSeconds = 20000,
               lastLogtimeDate = ''2024-01-15''\<rparr>"
    by (simp add: checkAndCelebrate_def Let_def render_simps)
  from
    C3_lowered_goal_guard
      [of "day15\<lparr>todayLogtimeSeconds := 20000, gHours := 5, gMinutes := 30\<rparr>"
          "Some \<lparr>lastTriggeredDate = [], lastLogtimeSeconds = 20000,
                 lastLogtimeDate = ''2024-01-15''\<rparr>"]
    C3_lowered_goal_guard
      [of day15
          "Some \<lparr>lastTriggeredDate = [], lastLogtimeSeconds = 20000,
                 lastLogtimeDate = ''2024-01-15''\<rparr>"]
  show ?thesis
    unfolding before by (simp add: render_simps)
qed

text \<open>
  Claim C4. In an evaluated cycle that does not fire, \<open>lastTriggeredDate\<close> is as it was
  (the empty string of the initial state, when nothing was stored yet). When the stored
  logtime or the stored date differs from today's, the state is written once, with
  \<open>lastLogtimeSeconds\<close> and \<open>lastLogtimeDate\<close> set to \<open>todayLogtimeSeconds\<close> and \<open>D\<close>
  and the rest kept; when both already match, the cycle only reads.
\<close>

theorem C4_no_fire_update:
  assumes "\<not> skipped r" and "\<not> fires r stored"
  shows "lastTriggeredDate (loadState (snd (checkAndCelebrate r stored)))
           = lastTriggeredDate (loadState stored)
       \<and> (lastLogtimeSeconds (loadState stored) \<noteq> todayLogtimeSeconds r
            \<or> lastLogtimeDate (loadState stored) \<noteq> todayStr r
          \<longrightarrow> checkAndCelebrate r stored =
                ([GetItem confettiKey,
                  SetItem confettiKey
                    ((loadState stored)\<lparr>lastLogtimeSeconds := todayLogtimeSeconds r,
                                         lastLogtimeDate := todayStr r\<rparr>)],
                 Some ((loadState stored)\<lparr>lastLogtimeSeconds := todayLogtimeSeconds r,
                                           lastLogtimeDate := todayStr r\<rparr>)))
       \<and> (lastLogtimeSeconds (loadState stored) = todayLogtimeSeconds r
            \<and> lastLogtimeDate (loadState stored) = todayStr r
          \<longrightarrow> checkAndCelebrate r stored = ([GetItem confettiKey], stored))"
  using assms
  by (simp add: lastTriggeredDate_kept) (simp add: fires_iff checkAndCelebrate_def Let_def)

theorem C4_no_fire_update_witness:
  "\<not> skipped (day15\<lparr>goalReached := False, todayLogtimeSeconds := 100\<rparr>)
   \<and> \<not> fires (day15\<lparr>goalReached := False, todayLogtimeSeconds := 100\<rparr>) None
   \<and> checkAndCelebrate (day15\<lparr>goalReached := False, todayLogtimeSeconds := 100\<rparr>) None =
       ([GetItem confettiKey,
         SetItem confettiKey \<lparr>lastTriggeredDate = [], lastLogtimeSeconds = 100,
                              lastLogtimeDate = ''2024-01-15''\<rparr>],
        Some \<lparr>lastTriggeredDate = [], lastLogtimeSeconds = 100,
              lastLogtimeDate = ''2024-01-15''\<rparr>)
   \<and> checkAndCelebrate (day15\<lparr>goalReached := False, todayLogtimeSeconds := 100\<rparr>)
         (Some \<lparr>lastTriggeredDate = [], lastLogtimeSeconds = 100,
                lastLogtimeDate = ''2024-01-15''\<rparr>) =
       ([GetItem confettiKey],
        Some \<lparr>lastTriggeredDate = [], lastLogtimeSeconds = 100,
              lastLogtimeDate = ''2024-01-15''\<rparr>)"
  using
    C4_no_fire_update [of "day15\<lparr>goalReached := False, todayLogtimeSeconds := 100\<rparr>" None]
    C4_no_fire_update [of "day15\<lparr>goalReached := False, todayLogtimeSeconds := 100\<rparr>"
      "Some \<lparr>lastTriggeredDate = [], lastLogtimeSeconds = 100,
             lastLogtimeDate = ''2024-01-15''\<rparr>"]
  by (simp add: fires_iff render_simps)

text \<open>
  Claim C5. While the fetch is loading, or while there are no stats yet, the tracker does
  not evaluate: it performs no effect at all (no confetti, no read and no write of the
  persisted state) and the persisted state is left as it was.
\<close>

theorem C5_no_evaluation_while_loading:
  "isLoading r \<or> stats r = None \<Longrightarrow>
     checkAndCelebrate r stored = ([], stored) \<and> \<not> fires r stored"
  by (simp add: fires_def checkAndCelebrate_def skipped_def)

theorem C5_no_evaluation_while_loading_witness:
  "isLoading (day15\<lparr>isLoadingStats := True\<rparr>)
   \<and> stats (day15\<lparr>stats := None, todayLogtimeSeconds := 0\<rparr>) = None
   \<and> checkAndCelebrate (day15\<lparr>isLoadingStats := True\<rparr>) None = ([], None)
   \<and> checkAndCelebrate (day15\<lparr>stats := None, todayLogtimeSeconds := 0\<rparr>) None = ([], None)"
  using C5_no_evaluation_while_loading [of "day15\<lparr>isLoadingStats := True\<rparr>" None]
    C5_no_evaluation_while_loading [of "day15\<lparr>stats := None, todayLogtimeSeconds := 0\<rparr>" None]
  by (simp add: isLoading_def day15_def)

text \<open>
  Claim C6. In a background launch \<open>checkAndCelebrate\<close> returns before it reads or writes
  the persisted state: no run opens the confetti and no sequence of runs changes the
  state. Yet the user fetch and the stats fetch of the command are enabled in a
  background launch only.
\<close>

theorem C6_background_mode:
  "(isBackgroundMode (launchType r) \<longrightarrow>
      checkAndCelebrate r stored = ([], stored) \<and> \<not> fires r stored)
   \<and> ((\<forall>r\<in>set rs. isBackgroundMode (launchType r)) \<longrightarrow> cycles rs stored = ([], stored))
   \<and> (executeUser lt preferences \<or> executeStats lt user \<longrightarrow> isBackgroundMode lt)"
  by (simp add: fires_def checkAndCelebrate_def skipped_def background_cycles
      executeUser_def executeStats_def)

theorem C6_background_mode_witness:
  "isBackgroundMode (launchType (day15\<lparr>launchType := Background\<rparr>))
   \<and> checkAndCelebrate (day15\<lparr>launchType := Background\<rparr>) None = ([], None)
   \<and> cycles [day15\<lparr>launchType := Background\<rparr>, day16\<lparr>launchType := Background\<rparr>] None
       = ([], None)
   \<and> executeUser Background
       \<lparr>clientId = ''id'', clientSecret = ''secret'', debugMode = None,
        userLogin = Some ''jdoe'', goalHours = None, goalMinutes = None\<rparr>
   \<and> executeStats Background (Some userA)
   \<and> \<not> executeStats UserInitiated (Some userA)"
proof -
  have a: "isBackgroundMode (launchType (day15\<lparr>launchType := Background\<rparr>))"
    by (simp add: isBackgroundMode_def)
  have b: "\<forall>r\<in>set [day15\<lparr>launchType := Background\<rparr>, day16\<lparr>launchType := Background\<rparr>].
             isBackgroundMode (launchType r)"
    by (simp add: isBackgroundMode_def)
  have c: "executeUser Background
       \<lparr>clientId = ''id'', clientSecret = ''secret'', debugMode = None,
        userLogin = Some ''jdoe'', goalHours = None, goalMinutes = None\<rparr>"
    by (simp add: executeUser_def isBackgroundMode_def truthyLogin_def)
  have d: "executeStats Background (Some userA) \<and> \<not> executeStats UserInitiated (Some userA)"
    by (simp add: executeStats_def isBackgroundMode_def truthyUserId_def userA_def)
  from a b
    C6_background_mode
      [of "day15\<lparr>launchType := Background\<rparr>" None
          "[day15\<lparr>launchType := Background\<rparr>, day16\<lparr>launchType := Background\<rparr>]"
          Background
          "\<lparr>clientId = ''id'', clientSecret = ''secret'', debugMode = None,
            userLogin = Some ''jdoe'', goalHours = None, goalMinutes = None\<rparr>"
          "Some userA"]
  have "checkAndCelebrate (day15\<lparr>launchType := Background\<rparr>) None = ([], None)
      \<and> cycles [day15\<lparr>launchType := Background\<rparr>, day16\<lparr>launchType := Background\<rparr>] None
          = ([], None)"
    by blast
  with a c d show ?thesis by blast
qed

text \<open>
  Claim C10. A goal preference that \<open>Number\<close> does not read as a number falls back to
  its default, each field by itself: \<open>goalHours\<close> to 6 and \<open>goalMinutes\<close> to 39. With
  both invalid the goal is 6 h 39 min, 23940 seconds.
\<close>

theorem C10_goal_defaults:
  "(N (goalHours preferences) = None \<longrightarrow> goalHoursNumber N preferences = 6)
   \<and> (N (goalMinutes preferences) = None \<longrightarrow> goalMinutesNumber N preferences = 39)
   \<and> (N (goalHours preferences) = None \<and> N (goalMinutes preferences) = None \<longrightarrow>
        goalSeconds (goalHoursNumber N preferences) (goalMinutesNumber N preferences) = 23940)"
  by (simp add: goalHoursNumber_def goalMinutesNumber_def orDefault_def goalSeconds_def)

theorem C10_goal_defaults_witness:
  "goalHoursNumber (\<lambda>s. if s = Some ''7'' then Some 7 else None)
     \<lparr>clientId = ''id'', clientSecret = ''secret'', debugMode = None, userLogin = None,
      goalHours = Some ''six'', goalMinutes = Some ''7''\<rparr> = 6
   \<and> goalMinutesNumber (\<lambda>s. if s = Some ''7'' then Some 7 else None)
     \<lparr>clientId = ''id'', clientSecret = ''secret'', debugMode = None, userLogin = None,
      goalHours = Some ''7'', goalMinutes = Some ''4o''\<rparr> = 39
   \<and> goalSeconds
       (goalHoursNumber (\<lambda>s. if s = Some ''7'' then Some 7 else None)
          \<lparr>clientId = ''id'', clientSecret = ''secret'', debugMode = None, userLogin = None,
           goalHours = Some ''six'', goalMinutes = Some ''4o''\<rparr>)
       (goalMinutesNumber (\<lambda>s. if s = Some ''7'' then Some 7 else None)
          \<lparr>clientId = ''id'', clientSecret = ''secret'', debugMode = None, userLogin = None,
           goalHours = Some ''six'', goalMinutes = Some ''4o''\<rparr>) = 23940"
  using
    C10_goal_defaults [of "\<lambda>s. if s = Some ''7'' then Some 7 else None"
      "\<lparr>clientId = ''id'', clientSecret = ''secret'', debugMode = None, userLogin = None,
        goalHours = Some ''six'', goalMinutes = Some ''7''\<rparr>"]
    C10_goal_defaults [of "\<lambda>s. if s = Some ''7'' then Some 7 else None"
      "\<lparr>clientId = ''id'', clientSecret = ''secret'', debugMode = None, userLogin = None,
        goalHours = Some ''7'', goalMinutes = Some ''4o''\<rparr>"]
    C10_goal_defaults [of "\<lambda>s. if s = Some ''7'' then Some 7 else None"
      "\<lparr>clientId = ''id'', clientSecret = ''secret'', debugMode = None, userLogin = None,
        goalHours = Some ''six'', goalMinutes = Some ''4o''\<rparr>"]
  by (simp add: goalSeconds_def)

section \<open>Properties of the pinned-users grid\<close>

lemmas pin_simps =
  togglePin_def savePinnedUsers_def cacheUser_def removeCachedUser_def isPinned_def Let_def

lemma pinnedUsers_eq:
  "pinnedUsers s =
     map (\<lambda>l. the (pinnedUsersCache s l))
       (filter (\<lambda>l. pinnedUsersCache s l \<noteq> None) (pinnedUserLogins s))"
  by (simp add: pinnedUsers_def filter_map comp_def)

lemma map_login_cached:
  "\<forall>l u. c l = Some u \<longrightarrow> login u = l \<Longrightarrow>
     map (\<lambda>l. login (the (c l))) (filter (\<lambda>l. c l \<noteq> None) xs) = filter (\<lambda>l. c l \<noteq> None) xs"
  by (induction xs) auto

lemma pinnedUsers_logins:
  "\<forall>l u. pinnedUsersCache s l = Some u \<longrightarrow> login u = l \<Longrightarrow>
     map login (pinnedUsers s) = filter (\<lambda>l. pinnedUsersCache s l \<noteq> None) (pinnedUserLogins s)"
  using map_login_cached [of "pinnedUsersCache s" "pinnedUserLogins s"]
  by (simp add: pinnedUsers_eq comp_def)

lemma cached_after_cacheUser:
  "login user \<notin> set (uncachedLogins (cacheUser user s))
   \<and> (isPinned (login user) s \<longrightarrow> user \<in> set (pinnedUsers (cacheUser user s)))"
  by (auto simp add: uncachedLogins_def pinnedUsers_eq cacheUser_def isPinned_def Let_def image_iff)

text \<open>A handler sets all of the state from the state of its render.\<close>

lemma togglePinOf_closure: "togglePinOf c u cur = togglePin u c"
  by (cases c, cases cur)
    (simp add: togglePinOf_def togglePin_def cacheUserOf_def removeCachedUserOf_def
      cacheUser_def removeCachedUser_def savePinnedUsers_def Let_def)

text \<open>Called twice, the \<open>togglePin\<close> of one render does what it does called once: the
  second call reads the list and the cache that the first call read.\<close>

lemma togglePinOf_same_render:
  "togglePinOf c u (togglePinOf c u cur) = togglePinOf c u cur"
  by (simp add: togglePinOf_closure)

lemma same_render_twice_example:
  "pinnedUserLogins (togglePinOf (pins [''a''] [''a'' \<mapsto> userA]) userB
      (togglePinOf (pins [''a''] [''a'' \<mapsto> userA]) userB (pins [''a''] [''a'' \<mapsto> userA])))
     = [''a'', ''b'']
   \<and> pinnedUsersCache (togglePinOf (pins [''a''] [''a'' \<mapsto> userA]) userB
      (togglePinOf (pins [''a''] [''a'' \<mapsto> userA]) userB (pins [''a''] [''a'' \<mapsto> userA])))
       ''b'' = Some userB"
  by (simp add: togglePinOf_closure togglePin_def savePinnedUsers_def cacheUser_def Let_def
      pins_def userB_def)

text \<open>
  Claim C7, as it is stated, for every user and every list: two calls of \<open>togglePin\<close>
  would give the list back and leave no cache entry for the login. With \<open>a\<close> and \<open>b\<close>
  pinned and cached, two calls for \<open>a\<close> unpin it and pin it again: the list is then
  \<open>b, a\<close> and the cache holds the snapshot of \<open>a\<close>.
\<close>

theorem C7_toggle_twice_counterexample:
  "\<not> (pinnedUserLogins (togglePin userA (togglePin userA
           (pins [''a'', ''b''] [''a'' \<mapsto> userA, ''b'' \<mapsto> userB])))
        = pinnedUserLogins (pins [''a'', ''b''] [''a'' \<mapsto> userA, ''b'' \<mapsto> userB])
      \<and> pinnedUsersCache (togglePin userA (togglePin userA
           (pins [''a'', ''b''] [''a'' \<mapsto> userA, ''b'' \<mapsto> userB]))) (login userA) = None)"
  by (simp add: pin_simps pins_def userA_def)

text \<open>
  Claim C7, amended. Take two calls of \<open>togglePin\<close> for one user, each made by the render
  that is current when it is called, so that the second reads what the first has set.
  For a user whose login is not pinned they give the pinned-login list back as it was
  and leave no cache entry for the login, in React state and in \<open>LocalStorage\<close>. For a
  user whose login is pinned they unpin it and pin it again: the same logins are pinned,
  this one now last, and the cache holds the user's snapshot.
\<close>

theorem C7_toggle_twice:
  "(\<not> isPinned (login u) s \<longrightarrow>
      (let s1 = togglePinOf s u s; s2 = togglePinOf s1 u s1 in
         pinnedUserLogins s2 = pinnedUserLogins s
         \<and> pinnedUsersCache s2 (login u) = None
         \<and> storedPinnedUsers s2 = Some (pinnedUserLogins s)
         \<and> storedPinnedUsersCache s2 = Some ((pinnedUsersCache s)(login u := None))))
   \<and> (isPinned (login u) s \<longrightarrow>
      (let s1 = togglePinOf s u s; s2 = togglePinOf s1 u s1 in
         pinnedUserLogins s2 = filter (\<lambda>l. l \<noteq> login u) (pinnedUserLogins s) @ [login u]
         \<and> set (pinnedUserLogins s2) = set (pinnedUserLogins s)
         \<and> pinnedUsersCache s2 (login u) = Some u))"
  by (auto simp add: togglePinOf_closure pin_simps filter_id_conv)

theorem C7_toggle_twice_witness:
  "\<not> isPinned (login userB) (pins [''a''] [''a'' \<mapsto> userA])
   \<and> pinnedUserLogins (togglePinOf (pins [''a''] [''a'' \<mapsto> userA]) userB
        (pins [''a''] [''a'' \<mapsto> userA])) = [''a'', ''b'']
   \<and> pinnedUserLogins
        (togglePinOf
           (togglePinOf (pins [''a''] [''a'' \<mapsto> userA]) userB (pins [''a''] [''a'' \<mapsto> userA]))
           userB
           (togglePinOf (pins [''a''] [''a'' \<mapsto> userA]) userB (pins [''a''] [''a'' \<mapsto> userA])))
       = [''a'']
   \<and> pinnedUsersCache
        (togglePinOf
           (togglePinOf (pins [''a''] [''a'' \<mapsto> userA]) userB (pins [''a''] [''a'' \<mapsto> userA]))
           userB
           (togglePinOf (pins [''a''] [''a'' \<mapsto> userA]) userB (pins [''a''] [''a'' \<mapsto> userA])))
        ''b'' = None
   \<and> isPinned (login userA) (pins [''a'', ''b''] [''a'' \<mapsto> userA, ''b'' \<mapsto> userB])
   \<and> pinnedUserLogins
        (togglePinOf
           (togglePinOf (pins [''a'', ''b''] [''a'' \<mapsto> userA, ''b'' \<mapsto> userB]) userA
              (pins [''a'', ''b''] [''a'' \<mapsto> userA, ''b'' \<mapsto> userB]))
           userA
           (togglePinOf (pins [''a'', ''b''] [''a'' \<mapsto> userA, ''b'' \<mapsto> userB]) userA
              (pins [''a'', ''b''] [''a'' \<mapsto> userA, ''b'' \<mapsto> userB])))
       = [''b'', ''a'']"
proof -
  have fresh: "\<not> isPinned (login userB) (pins [''a''] [''a'' \<mapsto> userA])"
    and pinned: "isPinned (login userA) (pins [''a'', ''b''] [''a'' \<mapsto> userA, ''b'' \<mapsto> userB])"
    by (simp_all add: isPinned_def pins_def userA_def userB_def)
  have once: "pinnedUserLogins (togglePinOf (pins [''a''] [''a'' \<mapsto> userA]) userB
        (pins [''a''] [''a'' \<mapsto> userA])) = [''a'', ''b'']"
    by (simp add: togglePinOf_def cacheUserOf_def savePinnedUsers_def Let_def pins_def userB_def)
  have before: "pinnedUserLogins (pins [''a''] [''a'' \<mapsto> userA]) = [''a'']"
    "pinnedUserLogins (pins [''a'', ''b''] [''a'' \<mapsto> userA, ''b'' \<mapsto> userB]) = [''a'', ''b'']"
    "login userA = ''a''" "login userB = ''b''"
    by (simp_all add: pins_def userA_def userB_def)
  from C7_toggle_twice [of userB "pins [''a''] [''a'' \<mapsto> userA]"]
    C7_toggle_twice [of userA "pins [''a'', ''b''] [''a'' \<mapsto> userA, ''b'' \<mapsto> userB]"]
    fresh pinned once before
  show ?thesis by (simp add: Let_def)
qed

text \<open>
  Claim C8. \<open>togglePin\<close> of a user whose login is in the list removes the login from the
  list (every occurrence of it) and deletes its cache entry; of a user whose login is not
  in the list, it appends the login at the end and stores the snapshot as its cache
  entry, over any entry that was there. The other logins keep their membership, their
  order and their cache entries. List and cache are written to \<open>LocalStorage\<close> as well.
\<close>

theorem C8_togglePin:
  "(isPinned (login user) s \<longrightarrow>
      pinnedUserLogins (togglePin user s) = filter (\<lambda>l. l \<noteq> login user) (pinnedUserLogins s)
      \<and> \<not> isPinned (login user) (togglePin user s)
      \<and> pinnedUsersCache (togglePin user s) (login user) = None)
   \<and> (\<not> isPinned (login user) s \<longrightarrow>
      pinnedUserLogins (togglePin user s) = pinnedUserLogins s @ [login user]
      \<and> pinnedUsersCache (togglePin user s) (login user) = Some user)
   \<and> (\<forall>l. l \<noteq> login user \<longrightarrow>
        (isPinned l (togglePin user s) \<longleftrightarrow> isPinned l s)
        \<and> pinnedUsersCache (togglePin user s) l = pinnedUsersCache s l)
   \<and> filter (\<lambda>l. l \<noteq> login user) (pinnedUserLogins (togglePin user s))
       = filter (\<lambda>l. l \<noteq> login user) (pinnedUserLogins s)
   \<and> storedPinnedUsers (togglePin user s) = Some (pinnedUserLogins (togglePin user s))
   \<and> storedPinnedUsersCache (togglePin user s) = Some (pinnedUsersCache (togglePin user s))"
  by (auto simp add: pin_simps)

theorem C8_togglePin_witness:
  "isPinned (login userA) (pins [''a'', ''b''] [''a'' \<mapsto> userA, ''b'' \<mapsto> userB])
   \<and> pinnedUserLogins (togglePin userA
        (pins [''a'', ''b''] [''a'' \<mapsto> userA, ''b'' \<mapsto> userB])) = [''b'']
   \<and> pinnedUsersCache (togglePin userA
        (pins [''a'', ''b''] [''a'' \<mapsto> userA, ''b'' \<mapsto> userB])) ''a'' = None
   \<and> pinnedUsersCache (togglePin userA
        (pins [''a'', ''b''] [''a'' \<mapsto> userA, ''b'' \<mapsto> userB])) ''b'' = Some userB
   \<and> \<not> isPinned (login userB) (pins [''a''] [''a'' \<mapsto> userA])
   \<and> pinnedUserLogins (togglePin userB (pins [''a''] [''a'' \<mapsto> userA])) = [''a'', ''b'']
   \<and> pinnedUsersCache (togglePin userB (pins [''a''] [''a'' \<mapsto> userA])) ''b'' = Some userB
   \<and> pinnedUsersCache (togglePin userB (pins [''a''] [''a'' \<mapsto> userA])) ''a'' = Some userA"
proof -
  have pinned: "isPinned (login userA) (pins [''a'', ''b''] [''a'' \<mapsto> userA, ''b'' \<mapsto> userB])"
    and fresh: "\<not> isPinned (login userB) (pins [''a''] [''a'' \<mapsto> userA])"
    and other: "''b'' \<noteq> login userA" "''a'' \<noteq> login userB"
    by (simp_all add: isPinned_def pins_def userA_def userB_def)
  have before:
    "pinnedUserLogins (pins [''a'', ''b''] [''a'' \<mapsto> userA, ''b'' \<mapsto> userB]) = [''a'', ''b'']"
    "pinnedUsersCache (pins [''a'', ''b''] [''a'' \<mapsto> userA, ''b'' \<mapsto> userB]) ''b'' = Some userB"
    "pinnedUserLogins (pins [''a''] [''a'' \<mapsto> userA]) = [''a'']"
    "pinnedUsersCache (pins [''a''] [''a'' \<mapsto> userA]) ''a'' = Some userA"
    "login userA = ''a''" "login userB = ''b''"
    by (simp_all add: pins_def userA_def userB_def)
  from C8_togglePin [of userA "pins [''a'', ''b''] [''a'' \<mapsto> userA, ''b'' \<mapsto> userB]"]
    C8_togglePin [of userB "pins [''a''] [''a'' \<mapsto> userA]"]
    pinned fresh other before
  show ?thesis by simp
qed

text \<open>
  Claim C9. The grid splits the pinned logins by the cache: \<open>pinnedUsers\<close> are the cached
  snapshots of the logins that have an entry, in the order of the list, and
  \<open>uncachedLogins\<close> are the logins that have none, in the order of the list; each pinned
  login is in exactly one part. The missing logins are what \<open>usePinnedUsers\<close> is asked
  to fetch, and a fetched user with no cache entry is passed to \<open>cacheUser\<close>, after
  which the login is no longer missing. With \<open>a\<close> and \<open>b\<close> pinned and only \<open>a\<close> cached,
  the cached part is the snapshot of \<open>a\<close> and the missing part is \<open>b\<close>.
\<close>

theorem C9_cached_and_missing:
  "pinnedUsers s =
     map (\<lambda>l. the (pinnedUsersCache s l))
       (filter (\<lambda>l. pinnedUsersCache s l \<noteq> None) (pinnedUserLogins s))
   \<and> uncachedLogins s = filter (\<lambda>l. pinnedUsersCache s l = None) (pinnedUserLogins s)
   \<and> length (pinnedUsers s) + length (uncachedLogins s) = length (pinnedUserLogins s)
   \<and> ((\<forall>l u. pinnedUsersCache s l = Some u \<longrightarrow> login u = l) \<longrightarrow>
        map login (pinnedUsers s)
          = filter (\<lambda>l. pinnedUsersCache s l \<noteq> None) (pinnedUserLogins s))
   \<and> (pinnedFetch searchText s \<noteq> None \<longrightarrow> pinnedFetch searchText s = Some (uncachedLogins s))
   \<and> (\<forall>user \<in> set fetched.
         (user \<in> set (fedToCacheUser (Some fetched) s) \<longleftrightarrow>
            pinnedUsersCache s (login user) = None)
         \<and> login user \<notin> set (uncachedLogins (cacheUser user s))
         \<and> (isPinned (login user) s \<longrightarrow> user \<in> set (pinnedUsers (cacheUser user s))))"
proof (intro conjI)
  show "pinnedUsers s =
     map (\<lambda>l. the (pinnedUsersCache s l))
       (filter (\<lambda>l. pinnedUsersCache s l \<noteq> None) (pinnedUserLogins s))"
    by (rule pinnedUsers_eq)
  show "uncachedLogins s = filter (\<lambda>l. pinnedUsersCache s l = None) (pinnedUserLogins s)"
    by (simp add: uncachedLogins_def)
  show "length (pinnedUsers s) + length (uncachedLogins s) = length (pinnedUserLogins s)"
    using sum_length_filter_compl [of "\<lambda>l. pinnedUsersCache s l = None" "pinnedUserLogins s"]
    by (simp add: pinnedUsers_eq uncachedLogins_def)
  show "(\<forall>l u. pinnedUsersCache s l = Some u \<longrightarrow> login u = l) \<longrightarrow>
        map login (pinnedUsers s)
          = filter (\<lambda>l. pinnedUsersCache s l \<noteq> None) (pinnedUserLogins s)"
    using pinnedUsers_logins by blast
  show "pinnedFetch searchText s \<noteq> None \<longrightarrow> pinnedFetch searchText s = Some (uncachedLogins s)"
    by (simp add: pinnedFetch_def)
  show "\<forall>user \<in> set fetched.
         (user \<in> set (fedToCacheUser (Some fetched) s) \<longleftrightarrow>
            pinnedUsersCache s (login user) = None)
         \<and> login user \<notin> set (uncachedLogins (cacheUser user s))
         \<and> (isPinned (login user) s \<longrightarrow> user \<in> set (pinnedUsers (cacheUser user s)))"
    using cached_after_cacheUser by (auto simp add: fedToCacheUser_def)
qed

theorem C9_cached_and_missing_witness:
  "pinnedUsers (pins [''a'', ''b''] [''a'' \<mapsto> userA]) = [userA]
   \<and> uncachedLogins (pins [''a'', ''b''] [''a'' \<mapsto> userA]) = [''b'']
   \<and> pinnedFetch [] (pins [''a'', ''b''] [''a'' \<mapsto> userA]) = Some [''b'']
   \<and> fedToCacheUser (Some [userB]) (pins [''a'', ''b''] [''a'' \<mapsto> userA]) = [userB]
   \<and> pinnedUsers (cacheUser userB (pins [''a'', ''b''] [''a'' \<mapsto> userA])) = [userA, userB]
   \<and> uncachedLogins (cacheUser userB (pins [''a'', ''b''] [''a'' \<mapsto> userA])) = []"
proof -
  let ?s = "pins [''a'', ''b''] [''a'' \<mapsto> userA]"
  have inv: "\<forall>l u. pinnedUsersCache ?s l = Some u \<longrightarrow> login u = l"
    by (simp add: pins_def userA_def)
  have req: "pinnedFetch [] ?s \<noteq> None"
    by (simp add: pinnedFetch_def uncachedLogins_def pins_def)
  have pinned: "isPinned (login userB) ?s"
    by (simp add: isPinned_def pins_def userB_def)
  have ev: "the (pinnedUsersCache ?s ''a'') = userA" "pinnedUsersCache ?s ''b'' = None"
    "pinnedUserLogins ?s = [''a'', ''b'']" "pinnedUsersCache ?s ''a'' \<noteq> None"
    by (simp_all add: pins_def)
  from C9_cached_and_missing [of ?s "[]" "[userB]"] inv req pinned ev
  have "pinnedUsers ?s = [userA]" "uncachedLogins ?s = [''b'']"
    "pinnedFetch [] ?s = Some [''b'']"
    by (simp_all add: userB_def)
  moreover have "fedToCacheUser (Some [userB]) ?s = [userB]"
    by (simp add: fedToCacheUser_def pins_def userB_def)
  moreover have "pinnedUsers (cacheUser userB ?s) = [userA, userB]"
    "uncachedLogins (cacheUser userB ?s) = []"
    by (simp_all add: pinnedUsers_def uncachedLogins_def cacheUser_def pins_def
        userB_def userA_def Let_def)
  ultimately show ?thesis by blast
qed

end
